theory Spec2Isabelle
  imports Main "HOL-Library.Word"
begin

unbundle bit_operations_syntax

section \<open>Machine types\<close>

text \<open>
  The header is one \<^verbatim>\<open>uintptr_t\<close>.  Its width is the type parameter \<open>'a\<close> of
  \<open>'a word\<close>: \<open>64\<close> on an LP64 build, \<open>32\<close> otherwise.  Pointers
  (\<^verbatim>\<open>JavaThread*\<close>, \<^verbatim>\<open>ObjectMonitor*\<close>, \<^verbatim>\<open>BasicLock*\<close>, \<^verbatim>\<open>oop\<close>) and
  \<^verbatim>\<open>intptr_t\<close> have the same width and are words of the same type; \<^verbatim>\<open>uint\<close> and
  \<^verbatim>\<open>int\<close> are 32 bits wide on both builds, \<^verbatim>\<open>int\<close> being read in two's complement
  (\<open>sint\<close>, \<open>\<le>s\<close>) and widened by sign extension (\<open>scast\<close>), \<^verbatim>\<open>uint\<close> by zero
  extension (\<open>ucast\<close>).  A narrowing conversion keeps the low bits (\<open>ucast\<close>).  The shift
  \<^verbatim>\<open><<\<close> of an \<^verbatim>\<open>int\<close> is the shift of its 32-bit pattern (\<open>push_bit\<close>).
\<close>

type_synonym uint = "32 word"
type_synonym cint = "32 word"

definition NULL :: "'a::len word" where
  "NULL = 0"

text \<open>
  A failed \<^verbatim>\<open>assert(cond, msg)\<close> stops the VM (debug build); the model returns the
  message on the left of a sum.
\<close>

datatype vm_error = assert_failed string

section \<open>Word-size parameters and bit helpers\<close>

text \<open>
  Modelled from the spec: \<^verbatim>\<open>BitsPerWord\<close>, \<^verbatim>\<open>LP64_ONLY\<close>/\<^verbatim>\<open>NOT_LP64\<close>,
  \<^verbatim>\<open>right_n_bits\<close> and \<^verbatim>\<open>mask_bits\<close> come from \<^verbatim>\<open>globalDefinitions.hpp\<close>, which
  is not among the sources.  The header is "a single machine-word-sized unsigned
  integer", so \<^verbatim>\<open>BitsPerWord\<close> is the width of the word type and the LP64 build is the
  one with 64-bit words; a field of \<open>n\<close> bits is selected by the mask with the \<open>n\<close>
  low bits set ("its low 2 bits are a state tag", "age (4 bits)"), and masking is
  bitwise conjunction.
\<close>

definition BitsPerWord :: "'a::len itself \<Rightarrow> nat" where
  "BitsPerWord t = LENGTH('a)"

definition LP64 :: "'a::len itself \<Rightarrow> bool" where
  "LP64 t = (LENGTH('a) = 64)"

definition right_n_bits :: "nat \<Rightarrow> 'a::len word" where
  "right_n_bits n = mask n"

definition mask_bits :: "'a::len word \<Rightarrow> 'a word \<Rightarrow> 'a word" where
  "mask_bits x m = x AND m"

section \<open>markWord: the constants\<close>

definition age_bits :: nat where
  "age_bits = 4"

definition lock_bits :: nat where
  "lock_bits = 2"

definition biased_lock_bits :: nat where
  "biased_lock_bits = 1"

definition max_hash_bits :: "'a::len itself \<Rightarrow> nat" where
  "max_hash_bits t = BitsPerWord t - age_bits - lock_bits - biased_lock_bits"

definition hash_bits :: "'a::len itself \<Rightarrow> nat" where
  "hash_bits t = (if max_hash_bits t > 31 then 31 else max_hash_bits t)"

definition unused_gap_bits :: "'a::len itself \<Rightarrow> nat" where
  "unused_gap_bits t = (if LP64 t then 1 else 0)"

definition epoch_bits :: nat where
  "epoch_bits = 2"

definition lock_shift :: nat where
  "lock_shift = 0"

definition biased_lock_shift :: nat where
  "biased_lock_shift = lock_bits"

definition age_shift :: nat where
  "age_shift = lock_bits + biased_lock_bits"

definition unused_gap_shift :: nat where
  "unused_gap_shift = age_shift + age_bits"

definition hash_shift :: "'a::len itself \<Rightarrow> nat" where
  "hash_shift t = unused_gap_shift + unused_gap_bits t"

definition epoch_shift :: "'a::len itself \<Rightarrow> nat" where
  "epoch_shift t = hash_shift t"

definition lock_mask :: "'a::len word" where
  "lock_mask = right_n_bits lock_bits"

definition lock_mask_in_place :: "'a::len word" where
  "lock_mask_in_place = push_bit lock_shift lock_mask"

definition biased_lock_mask :: "'a::len word" where
  "biased_lock_mask = right_n_bits (lock_bits + biased_lock_bits)"

definition biased_lock_mask_in_place :: "'a::len word" where
  "biased_lock_mask_in_place = push_bit lock_shift biased_lock_mask"

definition biased_lock_bit_in_place :: "'a::len word" where
  "biased_lock_bit_in_place = push_bit biased_lock_shift 1"

definition age_mask :: "'a::len word" where
  "age_mask = right_n_bits age_bits"

definition age_mask_in_place :: "'a::len word" where
  "age_mask_in_place = push_bit age_shift age_mask"

definition epoch_mask :: "'a::len word" where
  "epoch_mask = right_n_bits epoch_bits"

definition epoch_mask_in_place :: "'a::len word" where
  "epoch_mask_in_place = push_bit (epoch_shift TYPE('a)) epoch_mask"

definition hash_mask :: "'a::len word" where
  "hash_mask = right_n_bits (hash_bits TYPE('a))"

definition hash_mask_in_place :: "'a::len word" where
  "hash_mask_in_place = push_bit (hash_shift TYPE('a)) hash_mask"

definition locked_value :: "'a::len word" where
  "locked_value = 0"

definition unlocked_value :: "'a::len word" where
  "unlocked_value = 1"

definition monitor_value :: "'a::len word" where
  "monitor_value = 2"

definition marked_value :: "'a::len word" where
  "marked_value = 3"

definition biased_lock_pattern :: "'a::len word" where
  "biased_lock_pattern = 5"

definition max_age :: "'a::len itself \<Rightarrow> uint" where
  "max_age t = ucast (age_mask :: 'a word)"

definition max_bias_epoch :: "'a::len itself \<Rightarrow> cint" where
  "max_bias_epoch t = ucast (epoch_mask :: 'a word)"

section \<open>markWord: the value type\<close>

text \<open>
  The class holds one field, \<^verbatim>\<open>_value\<close>; the accessor \<^verbatim>\<open>value()\<close> is the selector
  \<open>value_of\<close>.
\<close>

datatype 'w markWord = markWord (value_of: 'w)

definition zero :: "'a::len word markWord" where
  "zero = markWord 0"

subsection \<open>Biased-locking accessors\<close>

definition has_bias_pattern :: "'a::len word markWord \<Rightarrow> bool" where
  "has_bias_pattern m =
     (mask_bits (value_of m) biased_lock_mask_in_place = biased_lock_pattern)"

definition biased_locker :: "'a::len word markWord \<Rightarrow> vm_error + 'a word" where
  "biased_locker m =
     (if \<not> has_bias_pattern m then Inl (assert_failed ''should not call this otherwise'')
      else Inr (mask_bits (value_of m)
                  (NOT (biased_lock_mask_in_place OR age_mask_in_place OR epoch_mask_in_place))))"

definition is_biased_anonymously :: "'a::len word markWord \<Rightarrow> vm_error + bool" where
  "is_biased_anonymously m =
     (if has_bias_pattern m
      then (case biased_locker m of Inl e \<Rightarrow> Inl e | Inr p \<Rightarrow> Inr (p = NULL))
      else Inr False)"

definition bias_epoch :: "'a::len word markWord \<Rightarrow> vm_error + cint" where
  "bias_epoch m =
     (if \<not> has_bias_pattern m then Inl (assert_failed ''should not call this otherwise'')
      else Inr (ucast (drop_bit (epoch_shift TYPE('a))
                         (mask_bits (value_of m) epoch_mask_in_place))))"

definition biased_locking_prototype :: "'a::len word markWord" where
  "biased_locking_prototype = markWord biased_lock_pattern"

subsection \<open>Lock accessors\<close>

definition is_locked :: "'a::len word markWord \<Rightarrow> bool" where
  "is_locked m = (mask_bits (value_of m) lock_mask_in_place \<noteq> unlocked_value)"

definition is_unlocked :: "'a::len word markWord \<Rightarrow> bool" where
  "is_unlocked m = (mask_bits (value_of m) biased_lock_mask_in_place = unlocked_value)"

definition is_marked :: "'a::len word markWord \<Rightarrow> bool" where
  "is_marked m = (mask_bits (value_of m) lock_mask_in_place = marked_value)"

definition is_neutral :: "'a::len word markWord \<Rightarrow> bool" where
  "is_neutral m = (mask_bits (value_of m) biased_lock_mask_in_place = unlocked_value)"

subsection \<open>Synchronization helpers\<close>

definition has_monitor :: "'a::len word markWord \<Rightarrow> bool" where
  "has_monitor m = ((value_of m AND monitor_value) \<noteq> 0)"

definition monitor :: "'a::len word markWord \<Rightarrow> vm_error + 'a word" where
  "monitor m =
     (if \<not> has_monitor m then Inl (assert_failed ''check'')
      else Inr (value_of m XOR monitor_value))"

definition copy_set_hash :: "'a::len word markWord \<Rightarrow> 'a word \<Rightarrow> 'a word markWord" where
  "copy_set_hash m hash =
     (let tmp = value_of m AND NOT hash_mask_in_place;
          tmp = tmp OR push_bit (hash_shift TYPE('a)) (hash AND hash_mask)
      in markWord tmp)"

definition unused_mark :: "'a::len word markWord" where
  "unused_mark = markWord marked_value"

text \<open>
  The overloads of \<^verbatim>\<open>encode\<close>: \<open>encode_monitor\<close> is \<^verbatim>\<open>encode(ObjectMonitor*)\<close> and
  \<open>encode\<close> is \<^verbatim>\<open>encode(JavaThread*, uint, int)\<close>.  \<^verbatim>\<open>UseBiasedLocking\<close> is a flag of the
  VM (\<^verbatim>\<open>globals.hpp\<close>), here the first argument.
\<close>

definition encode_monitor :: "'a::len word \<Rightarrow> 'a word markWord" where
  "encode_monitor mon = (let tmp = mon in markWord (tmp OR monitor_value))"

definition encode :: "bool \<Rightarrow> 'a::len word \<Rightarrow> uint \<Rightarrow> cint \<Rightarrow> vm_error + 'a word markWord" where
  "encode UseBiasedLocking thread age_v epoch_v =
     (let tmp = thread in
      if \<not> (UseBiasedLocking \<and>
              (tmp AND (epoch_mask_in_place OR age_mask_in_place OR biased_lock_mask_in_place)) = 0)
      then Inl (assert_failed ''misaligned JavaThread pointer'')
      else if \<not> age_v \<le> max_age TYPE('a) then Inl (assert_failed ''age too large'')
      else if \<not> epoch_v \<le>s max_bias_epoch TYPE('a)
      then Inl (assert_failed ''bias epoch too large'')
      else Inr (markWord (tmp OR scast (push_bit (epoch_shift TYPE('a)) epoch_v)
                              OR ucast (push_bit age_shift age_v)
                              OR biased_lock_pattern)))"

subsection \<open>Mark and age operations\<close>

definition set_marked :: "'a::len word markWord \<Rightarrow> 'a word markWord" where
  "set_marked m = markWord ((value_of m AND NOT lock_mask_in_place) OR marked_value)"

definition age :: "'a::len word markWord \<Rightarrow> uint" where
  "age m = ucast (mask_bits (drop_bit age_shift (value_of m)) age_mask)"

definition set_age :: "'a::len word markWord \<Rightarrow> uint \<Rightarrow> vm_error + 'a word markWord" where
  "set_age m v =
     (if \<not> ((ucast v :: 'a word) AND NOT age_mask) = 0
      then Inl (assert_failed ''shouldn't overflow age field'')
      else Inr (markWord ((value_of m AND NOT age_mask_in_place)
                          OR push_bit age_shift ((ucast v :: 'a word) AND age_mask))))"

definition incr_age :: "'a::len word markWord \<Rightarrow> vm_error + 'a word markWord" where
  "incr_age m =
     (if age m = max_age TYPE('a) then Inr (markWord (value_of m)) else set_age m (age m + 1))"

subsection \<open>Hash operations\<close>

definition hash :: "'a::len word markWord \<Rightarrow> 'a word" where
  "hash m = mask_bits (drop_bit (hash_shift TYPE('a)) (value_of m)) hash_mask"

section \<open>BasicLock\<close>

text \<open>
  Modelled from the spec: \<^verbatim>\<open>basicLock.hpp\<close> (the class with its field
  \<^verbatim>\<open>_displaced_header\<close> and the accessors \<^verbatim>\<open>displaced_header()\<close> and
  \<^verbatim>\<open>set_displaced_header()\<close>) is not among the sources.  A lock record "holds a
  displaced copy of a HeaderWord captured at lightweight-lock-acquire time, or a
  zero/sentinel value": one field, read and written whole.
\<close>

record 'w BasicLock =
  displaced_header_field :: "'w markWord"

definition displaced_header :: "'w BasicLock \<Rightarrow> 'w markWord" where
  "displaced_header l = displaced_header_field l"

definition set_displaced_header :: "'w markWord \<Rightarrow> 'w BasicLock \<Rightarrow> 'w BasicLock" where
  "set_displaced_header header l = l\<lparr>displaced_header_field := header\<rparr>"

text \<open>
  \<^verbatim>\<open>move_to\<close> works on two lock records through pointers (\<^verbatim>\<open>this\<close> and
  \<^verbatim>\<open>dest\<close>, which may alias) and hands the object to
  \<^verbatim>\<open>ObjectSynchronizer::inflate_helper\<close>.  The memory is a store of lock records by
  stack address and of object headers by \<^verbatim>\<open>oop\<close>.  \<^verbatim>\<open>inflate_helper\<close> is defined
  in \<^verbatim>\<open>synchronizer.cpp\<close>, which is not among the sources: it is a parameter of the
  model, a function that may change the memory at will.  The machine state records, next to the
  memory, the objects \<^verbatim>\<open>inflate_helper\<close> has been called with, oldest first.
  \<open>displaced_header_at p\<close> is \<^verbatim>\<open>p->displaced_header()\<close> and
  \<open>set_displaced_header_at p h\<close> is \<^verbatim>\<open>p->set_displaced_header(h)\<close>.
\<close>

record 'w memory =
  basic_locks :: "'w \<Rightarrow> 'w BasicLock"
  mark_words :: "'w \<Rightarrow> 'w markWord"

record 'w machine =
  mem :: "'w memory"
  inflate_calls :: "'w list"

definition call_inflate_helper ::
  "('w \<Rightarrow> 'w memory \<Rightarrow> 'w memory) \<Rightarrow> 'w \<Rightarrow> 'w machine \<Rightarrow> 'w machine" where
  "call_inflate_helper inflate_helper obj s =
     s\<lparr>mem := inflate_helper obj (mem s), inflate_calls := inflate_calls s @ [obj]\<rparr>"

definition displaced_header_at :: "'w \<Rightarrow> 'w machine \<Rightarrow> 'w markWord" where
  "displaced_header_at p s = displaced_header (basic_locks (mem s) p)"

definition set_displaced_header_at :: "'w \<Rightarrow> 'w markWord \<Rightarrow> 'w machine \<Rightarrow> 'w machine" where
  "set_displaced_header_at p header s =
     s\<lparr>mem := (mem s)\<lparr>basic_locks :=
          (basic_locks (mem s))(p := set_displaced_header header (basic_locks (mem s) p))\<rparr>\<rparr>"

definition move_to ::
  "('a::len word \<Rightarrow> 'a word memory \<Rightarrow> 'a word memory) \<Rightarrow>
     'a word \<Rightarrow> 'a word \<Rightarrow> 'a word \<Rightarrow> 'a word machine \<Rightarrow> 'a word machine" where
  "move_to inflate_helper this obj dest s =
     (let s1 = (if is_neutral (displaced_header_at this s)
                then call_inflate_helper inflate_helper obj s
                else s)
      in set_displaced_header_at dest (displaced_header_at this s1) s1)"

section \<open>Proof tools\<close>

lemmas field_defs =
  right_n_bits_def mask_bits_def age_bits_def lock_bits_def biased_lock_bits_def epoch_bits_def
  lock_shift_def biased_lock_shift_def age_shift_def unused_gap_shift_def
  lock_mask_def lock_mask_in_place_def biased_lock_mask_def biased_lock_mask_in_place_def
  biased_lock_bit_in_place_def age_mask_def age_mask_in_place_def
  epoch_mask_def epoch_mask_in_place_def hash_mask_def hash_mask_in_place_def

lemmas layout_defs =
  BitsPerWord_def LP64_def max_hash_bits_def hash_bits_def unused_gap_bits_def
  hash_shift_def epoch_shift_def field_defs

lemmas tag_defs =
  locked_value_def unlocked_value_def monitor_value_def marked_value_def
  biased_lock_pattern_def NULL_def

text \<open>The two builds: where the hash and epoch fields start, and how wide the hash is.\<close>

lemma layout_32:
  assumes "LENGTH('a::len) = 32"
  shows "epoch_shift TYPE('a) = 7" and "hash_shift TYPE('a) = 7" and "hash_bits TYPE('a) = 25"
  using assms by (simp_all add: layout_defs)

lemma layout_64:
  assumes "LENGTH('a::len) = 64"
  shows "epoch_shift TYPE('a) = 8" and "hash_shift TYPE('a) = 8" and "hash_bits TYPE('a) = 31"
  using assms by (simp_all add: layout_defs)

lemma word_size_cases:
  assumes "BitsPerWord TYPE('a::len) = 32 \<or> BitsPerWord TYPE('a) = 64"
  obtains "LENGTH('a) = 32" | "LENGTH('a) = 64"
  using assms by (auto simp: BitsPerWord_def)

lemma word_size_ge:
  assumes "BitsPerWord TYPE('a::len) = 32 \<or> BitsPerWord TYPE('a) = 64"
  shows "2 \<le> LENGTH('a)" and "3 \<le> LENGTH('a)" and "7 \<le> LENGTH('a)"
  using assms by (auto simp: BitsPerWord_def)

subsection \<open>Bits of the tag values\<close>

lemma bit_int_2: "bit (2 :: int) n \<longleftrightarrow> n = 1"
proof -
  have eq: "(2 :: int) = push_bit 1 1" by simp
  show ?thesis by (subst eq) (auto simp: bit_simps simp del: push_bit_of_1)
qed

lemma bit_int_3: "bit (3 :: int) n \<longleftrightarrow> n < 2"
proof -
  have eq: "(3 :: int) = mask 2" by (simp add: mask_eq_exp_minus_1)
  show ?thesis by (subst eq) (simp add: bit_simps)
qed

lemma bit_int_5: "bit (5 :: int) n \<longleftrightarrow> n = 0 \<or> n = 2"
proof -
  have "(5 :: int) = 1 + push_bit 2 1" by simp
  also have "\<dots> = 1 OR push_bit 2 1"
    by (rule disjunctive_add) (auto simp: bit_simps)
  finally have eq: "(5 :: int) = 1 OR push_bit 2 1" .
  show ?thesis by (subst eq) (auto simp: bit_simps simp del: push_bit_of_1)
qed

lemmas tag_bits = bit_int_2 bit_int_3 bit_int_5

lemma word_eq_bits: "x = y \<longleftrightarrow> (\<forall>n<LENGTH('a). bit x n = bit y n)"
  for x y :: "'a::len word"
  by (auto intro: bit_word_eqI)

lemma nat_less_2: "n < 2 \<longleftrightarrow> n = 0 \<or> n = 1" for n :: nat
  by arith

lemma nat_less_3: "n < 3 \<longleftrightarrow> n = 0 \<or> n = 1 \<or> n = 2" for n :: nat
  by arith

lemma and_mask_bit: "v AND mask k = c \<Longrightarrow> n < k \<Longrightarrow> bit v n = bit c n"
  for v c :: "'a::len word"
  by (auto simp: bit_simps dest: bit_imp_le_length)

lemma and_zero_imp: "x AND m = 0 \<Longrightarrow> x AND NOT m = x" for x :: "'a::len word"
  by (auto simp: word_eq_bits bit_simps)

lemma lock_tag_3:
  fixes v :: "'a::len word"
  assumes "2 \<le> LENGTH('a)"
  shows "v AND mask 2 = 3 \<longleftrightarrow> bit v 0 \<and> bit v 1"
proof
  assume "v AND mask 2 = 3"
  from and_mask_bit [OF this, of 0] and_mask_bit [OF this, of 1]
  show "bit v 0 \<and> bit v 1" using assms by (simp add: tag_bits)
next
  assume "bit v 0 \<and> bit v 1"
  then show "v AND mask 2 = 3"
    by (auto simp: word_eq_bits bit_simps tag_bits nat_less_2)
qed

lemma bias_tag_5:
  fixes v :: "'a::len word"
  assumes "3 \<le> LENGTH('a)"
  shows "v AND mask 3 = 5 \<longleftrightarrow> bit v 0 \<and> \<not> bit v 1 \<and> bit v 2"
proof
  assume "v AND mask 3 = 5"
  from and_mask_bit [OF this, of 0] and_mask_bit [OF this, of 1] and_mask_bit [OF this, of 2]
  show "bit v 0 \<and> \<not> bit v 1 \<and> bit v 2" using assms by (simp add: tag_bits)
next
  assume "bit v 0 \<and> \<not> bit v 1 \<and> bit v 2"
  then show "v AND mask 3 = 5"
    by (auto simp: word_eq_bits bit_simps tag_bits nat_less_3)
qed

lemma bias_tag_1:
  fixes v :: "'a::len word"
  assumes "3 \<le> LENGTH('a)"
  shows "v AND mask 3 = 1 \<longleftrightarrow> bit v 0 \<and> \<not> bit v 1 \<and> \<not> bit v 2"
proof
  assume "v AND mask 3 = 1"
  from and_mask_bit [OF this, of 0] and_mask_bit [OF this, of 1] and_mask_bit [OF this, of 2]
  show "bit v 0 \<and> \<not> bit v 1 \<and> \<not> bit v 2" using assms by (simp add: tag_bits)
next
  assume "bit v 0 \<and> \<not> bit v 1 \<and> \<not> bit v 2"
  then show "v AND mask 3 = 1"
    by (auto simp: word_eq_bits bit_simps tag_bits nat_less_3)
qed

subsection \<open>The predicates, bit by bit\<close>

lemma has_monitor_bit:
  fixes m :: "'a::len word markWord"
  assumes "2 \<le> LENGTH('a)"
  shows "has_monitor m \<longleftrightarrow> bit (value_of m) 1"
proof -
  have "bit (value_of m AND 2) 1 \<longleftrightarrow> bit (value_of m) 1"
    using assms by (simp add: bit_simps tag_bits)
  moreover have "value_of m AND 2 = 0 \<Longrightarrow> \<not> bit (value_of m AND 2) 1"
    by simp
  moreover have "\<not> bit (value_of m) 1 \<Longrightarrow> value_of m AND 2 = 0"
    by (auto simp: word_eq_bits bit_simps tag_bits)
  ultimately show ?thesis
    unfolding has_monitor_def monitor_value_def by blast
qed

lemma is_marked_bits:
  fixes m :: "'a::len word markWord"
  assumes "2 \<le> LENGTH('a)"
  shows "is_marked m \<longleftrightarrow> bit (value_of m) 0 \<and> bit (value_of m) 1"
  by (simp add: is_marked_def field_defs tag_defs lock_tag_3 [OF assms])

lemma has_bias_pattern_bits:
  fixes m :: "'a::len word markWord"
  assumes "3 \<le> LENGTH('a)"
  shows "has_bias_pattern m \<longleftrightarrow> bit (value_of m) 0 \<and> \<not> bit (value_of m) 1 \<and> bit (value_of m) 2"
  by (simp add: has_bias_pattern_def field_defs tag_defs bias_tag_5 [OF assms])

lemma is_neutral_bits:
  fixes m :: "'a::len word markWord"
  assumes "3 \<le> LENGTH('a)"
  shows "is_neutral m \<longleftrightarrow> bit (value_of m) 0 \<and> \<not> bit (value_of m) 1 \<and> \<not> bit (value_of m) 2"
  by (simp add: is_neutral_def field_defs tag_defs bias_tag_1 [OF assms])

lemma has_monitor_not_neutral:
  fixes m :: "'a::len word markWord"
  assumes "has_monitor m"
  shows "\<not> is_neutral m"
proof
  assume "is_neutral m"
  then have n: "value_of m AND mask 3 = 1"
    by (simp add: is_neutral_def field_defs tag_defs)
  have "bit (value_of m AND 2) k = False" for k
  proof (cases "k = 1")
    case True
    from and_mask_bit [OF n, of 1] show ?thesis using True by (simp add: bit_simps)
  next
    case False
    then show ?thesis by (simp add: bit_simps tag_bits)
  qed
  then have "value_of m AND 2 = 0" by (simp add: word_eq_bits)
  with assms show False by (simp add: has_monitor_def monitor_value_def)
qed

subsection \<open>The ranges of \<^verbatim>\<open>uint age\<close> and \<^verbatim>\<open>int bias_epoch\<close>\<close>

lemma max_age_15:
  assumes "7 \<le> LENGTH('a::len)"
  shows "max_age TYPE('a) = 15"
proof -
  have "ucast (mask 4 :: 'a word) = (mask 4 :: 32 word)"
    using assms by - (rule bit_word_eqI, auto simp: bit_simps)
  then show ?thesis by (simp add: max_age_def field_defs mask_eq_exp_minus_1)
qed

lemma max_bias_epoch_3:
  assumes "7 \<le> LENGTH('a::len)"
  shows "max_bias_epoch TYPE('a) = 3"
proof -
  have "ucast (mask 2 :: 'a word) = (mask 2 :: 32 word)"
    using assms by - (rule bit_word_eqI, auto simp: bit_simps)
  then show ?thesis by (simp add: max_bias_epoch_def field_defs mask_eq_exp_minus_1)
qed

lemma uint_le_15: "(a :: 32 word) \<le> 15 \<longleftrightarrow> a AND mask 4 = a"
  by (simp add: mask_eq_iff word_le_def) arith

lemma uint_le_3: "(e :: 32 word) \<le> 3 \<longleftrightarrow> e AND mask 2 = e"
  by (simp add: mask_eq_iff word_le_def) arith

lemma word_of_sint_cases:
  fixes e :: "32 word"
  assumes "sint e = 0 \<or> sint e = 1 \<or> sint e = 2 \<or> sint e = 3"
  shows "e = 0 \<or> e = 1 \<or> e = 2 \<or> e = 3"
proof -
  have "word_of_int (sint e) = e" by simp
  with assms show ?thesis by (elim disjE) simp_all
qed

lemma word_of_uint_cases:
  fixes e :: "32 word"
  assumes "uint e = 0 \<or> uint e = 1 \<or> uint e = 2 \<or> uint e = 3"
  shows "e = 0 \<or> e = 1 \<or> e = 2 \<or> e = 3"
proof -
  have "word_of_int (uint e) = e" by simp
  with assms show ?thesis by (elim disjE) simp_all
qed

lemma cint_range_3: "(0 \<le>s e \<and> e \<le>s 3) \<longleftrightarrow> e AND mask 2 = e" for e :: "32 word"
proof
  assume "0 \<le>s e \<and> e \<le>s 3"
  then have "0 \<le> sint e" "sint e \<le> 3" by (simp_all add: word_sle_eq)
  then have "sint e = 0 \<or> sint e = 1 \<or> sint e = 2 \<or> sint e = 3" by arith
  then have "e = 0 \<or> e = 1 \<or> e = 2 \<or> e = 3" by (rule word_of_sint_cases)
  then show "e AND mask 2 = e" by (auto simp: mask_eq_exp_minus_1)
next
  assume "e AND mask 2 = e"
  then have "uint e < 4" by (simp add: mask_eq_iff)
  moreover have "0 \<le> uint e" by simp
  ultimately have "uint e = 0 \<or> uint e = 1 \<or> uint e = 2 \<or> uint e = 3" by arith
  then have "e = 0 \<or> e = 1 \<or> e = 2 \<or> e = 3" by (rule word_of_uint_cases)
  then show "0 \<le>s e \<and> e \<le>s 3" by (auto simp: word_sle_eq)
qed

section \<open>The lock predicates\<close>

text \<open>
  Claim C6.  For every header word, \<^verbatim>\<open>is_locked\<close> is true exactly when the low two bits
  of the word differ from the unlocked tag value.  This holds at every word width.
\<close>

theorem is_locked_iff_low_bits:
  fixes m :: "'a::len word markWord"
  shows "is_locked m \<longleftrightarrow> take_bit 2 (value_of m) \<noteq> unlocked_value"
  by (simp add: is_locked_def field_defs take_bit_eq_mask)

text \<open>
  Claim C3.  On both builds \<^verbatim>\<open>is_unlocked\<close> and \<^verbatim>\<open>is_neutral\<close> agree on every header
  word: each is true exactly when the bias-plus-lock mask of the word equals the unlocked value.
  So a word that \<^verbatim>\<open>is_biased_anonymously\<close> accepts is neither unlocked nor neutral.
\<close>

theorem is_unlocked_eq_is_neutral:
  fixes m :: "'a::len word markWord"
  assumes "BitsPerWord TYPE('a) = 32 \<or> BitsPerWord TYPE('a) = 64"
  shows "is_unlocked m = is_neutral m \<and>
         (is_unlocked m \<longleftrightarrow> mask_bits (value_of m) biased_lock_mask_in_place = unlocked_value) \<and>
         (is_neutral m \<longleftrightarrow> mask_bits (value_of m) biased_lock_mask_in_place = unlocked_value) \<and>
         (is_biased_anonymously m = Inr True \<longrightarrow> \<not> is_unlocked m \<and> \<not> is_neutral m)"
proof -
  note len = word_size_ge(2) [OF assms]
  have eq: "is_unlocked m = is_neutral m"
    by (simp add: is_unlocked_def is_neutral_def)
  have "is_biased_anonymously m = Inr True \<Longrightarrow> has_bias_pattern m"
    by (auto simp: is_biased_anonymously_def split: if_splits)
  then have "is_biased_anonymously m = Inr True \<Longrightarrow> \<not> is_neutral m"
    by (auto simp: has_bias_pattern_bits [OF len] is_neutral_bits [OF len])
  with eq show ?thesis
    by (auto simp: is_unlocked_def is_neutral_def)
qed

text \<open>
  The 64-bit biased-locking prototype (value 5) is anonymously biased, and neither predicate
  accepts it; the plain prototype (value 1) is accepted by both.
\<close>

theorem is_unlocked_eq_is_neutral_witness:
  "is_biased_anonymously (biased_locking_prototype :: 64 word markWord) = Inr True \<and>
   \<not> is_unlocked (biased_locking_prototype :: 64 word markWord) \<and>
   \<not> is_neutral (biased_locking_prototype :: 64 word markWord) \<and>
   is_unlocked (markWord 1 :: 64 word markWord) \<and> is_neutral (markWord 1 :: 64 word markWord)"
proof -
  have w: "BitsPerWord TYPE(64) = 32 \<or> BitsPerWord TYPE(64) = 64"
    by (simp add: BitsPerWord_def)
  have a: "is_biased_anonymously (biased_locking_prototype :: 64 word markWord) = Inr True"
    by code_simp
  have n: "is_neutral (markWord 1 :: 64 word markWord)"
    by code_simp
  from is_unlocked_eq_is_neutral [OF w, of biased_locking_prototype] a
  have "\<not> is_unlocked (biased_locking_prototype :: 64 word markWord) \<and>
        \<not> is_neutral (biased_locking_prototype :: 64 word markWord)"
    by blast
  moreover from is_unlocked_eq_is_neutral [OF w, of "markWord 1"] n
  have "is_unlocked (markWord 1 :: 64 word markWord)"
    by blast
  ultimately show ?thesis using a n by blast
qed

text \<open>
  Claim C10.  On both builds every header word whose low two bits are the marked value 3
  also satisfies \<^verbatim>\<open>has_monitor\<close>, and every result of \<^verbatim>\<open>set_marked\<close> is such a word: the
  Marked and the Monitor predicates are not mutually exclusive.
\<close>

theorem marked_has_monitor:
  fixes m :: "'a::len word markWord"
  assumes "BitsPerWord TYPE('a) = 32 \<or> BitsPerWord TYPE('a) = 64"
  shows "(mask_bits (value_of m) lock_mask_in_place = marked_value \<longrightarrow> has_monitor m) \<and>
         mask_bits (value_of (set_marked m)) lock_mask_in_place = marked_value \<and>
         is_marked (set_marked m) \<and> has_monitor (set_marked m)"
proof -
  note len = word_size_ge(1) [OF assms]
  have "bit (value_of (set_marked m)) 0 \<and> bit (value_of (set_marked m)) 1"
    unfolding set_marked_def using len by (simp add: field_defs tag_defs bit_simps tag_bits)
  then have "is_marked (set_marked m) \<and> has_monitor (set_marked m)"
    by (simp add: is_marked_bits [OF len] has_monitor_bit [OF len])
  moreover have "is_marked m \<longrightarrow> has_monitor m"
    by (simp add: is_marked_bits [OF len] has_monitor_bit [OF len])
  ultimately show ?thesis
    by (simp add: is_marked_def)
qed

theorem marked_has_monitor_witness:
  "mask_bits (value_of (markWord (0x7F0000001003 :: 64 word))) lock_mask_in_place = marked_value \<and>
   is_marked (markWord (0x7F0000001003 :: 64 word)) \<and>
   has_monitor (markWord (0x7F0000001003 :: 64 word)) \<and>
   set_marked (markWord (0x7F0000001001 :: 64 word)) = markWord 0x7F0000001003"
proof -
  have w: "BitsPerWord TYPE(64) = 32 \<or> BitsPerWord TYPE(64) = 64"
    by (simp add: BitsPerWord_def)
  have t: "mask_bits (value_of (markWord (0x7F0000001003 :: 64 word))) lock_mask_in_place = marked_value"
    by code_simp
  have s: "set_marked (markWord (0x7F0000001001 :: 64 word)) = markWord 0x7F0000001003"
    by code_simp
  from marked_has_monitor [OF w, of "markWord 0x7F0000001003"] t s
  show ?thesis by (simp add: is_marked_def)
qed

section \<open>Monitor headers\<close>

text \<open>
  Claim C5.  On both builds, for every monitor pointer whose low two bits are zero, the header
  \<^verbatim>\<open>encode(monitor)\<close> is the pointer combined with \<^verbatim>\<open>monitor_value\<close> (2) by XOR, it
  satisfies \<^verbatim>\<open>has_monitor\<close>, and \<^verbatim>\<open>monitor()\<close> returns the pointer without asserting.
\<close>

theorem encode_monitor_roundtrip:
  fixes mon :: "'a::len word"
  assumes "BitsPerWord TYPE('a) = 32 \<or> BitsPerWord TYPE('a) = 64"
    and "mask_bits mon lock_mask_in_place = 0"
  shows "encode_monitor mon = markWord (mon XOR monitor_value) \<and>
         has_monitor (encode_monitor mon) \<and> monitor (encode_monitor mon) = Inr mon"
proof -
  note len = word_size_ge(1) [OF assms(1)]
  from assms(2) have low: "mon AND mask 2 = 0" by (simp add: field_defs)
  from and_mask_bit [OF this, of 1] have b1: "\<not> bit mon 1" by simp
  have x: "mon OR 2 = mon XOR 2"
    using b1 by (auto simp: word_eq_bits bit_simps tag_bits)
  have h: "has_monitor (markWord (mon XOR 2))"
    using len b1 by (simp add: has_monitor_bit [OF len] bit_simps tag_bits)
  have "(mon XOR 2) XOR 2 = mon"
    by (simp add: xor.assoc)
  with h show ?thesis
    by (simp add: encode_monitor_def monitor_def monitor_value_def x)
qed

theorem encode_monitor_roundtrip_witness:
  "mask_bits (0x7F0000002000 :: 64 word) lock_mask_in_place = 0 \<and>
   encode_monitor (0x7F0000002000 :: 64 word) = markWord 0x7F0000002002 \<and>
   has_monitor (encode_monitor (0x7F0000002000 :: 64 word)) \<and>
   monitor (encode_monitor (0x7F0000002000 :: 64 word)) = Inr 0x7F0000002000"
proof -
  have w: "BitsPerWord TYPE(64) = 32 \<or> BitsPerWord TYPE(64) = 64"
    by (simp add: BitsPerWord_def)
  have a: "mask_bits (0x7F0000002000 :: 64 word) lock_mask_in_place = 0"
    by code_simp
  have e: "encode_monitor (0x7F0000002000 :: 64 word) = markWord 0x7F0000002002"
    by code_simp
  from encode_monitor_roundtrip [OF w a] a e show ?thesis by simp
qed

section \<open>Age\<close>

text \<open>
  \<^verbatim>\<open>set_age\<close> with an age that fits the field: the assertion passes, the result reads back
  the new age, and every field next to the age field reads as before.
\<close>

lemma set_age_in_range:
  fixes m :: "'a::len word markWord"
  assumes width: "BitsPerWord TYPE('a) = 32 \<or> BitsPerWord TYPE('a) = 64"
    and v: "v \<le> max_age TYPE('a)"
  shows "\<exists>m'. set_age m v = Inr m' \<and> age m' = v \<and>
           value_of m' AND NOT age_mask_in_place = value_of m AND NOT age_mask_in_place \<and>
           mask_bits (value_of m') biased_lock_mask_in_place
             = mask_bits (value_of m) biased_lock_mask_in_place \<and>
           mask_bits (value_of m') epoch_mask_in_place
             = mask_bits (value_of m) epoch_mask_in_place \<and>
           mask_bits (value_of m')
               (NOT (biased_lock_mask_in_place OR age_mask_in_place OR epoch_mask_in_place))
             = mask_bits (value_of m)
                 (NOT (biased_lock_mask_in_place OR age_mask_in_place OR epoch_mask_in_place)) \<and>
           hash m' = hash m"
proof -
  note len = word_size_ge(3) [OF width]
  define v' where "v' = v"
  have veq: "v = v' AND mask 4"
    unfolding v'_def using v by (simp add: max_age_15 [OF len] uint_le_15)
  define r :: "'a word"
    where "r = (value_of m AND NOT age_mask_in_place) OR push_bit age_shift (ucast v AND age_mask)"
  have ok: "(ucast v :: 'a word) AND NOT age_mask = 0"
    unfolding veq field_defs by (rule bit_word_eqI) (auto simp: bit_simps)
  then have res: "set_age m v = Inr (markWord r)"
    by (simp add: set_age_def r_def)
  have ag: "ucast (drop_bit age_shift r AND age_mask) = v"
    unfolding r_def veq field_defs
    using len by - (rule bit_word_eqI, auto simp: bit_simps)
  have fr: "r AND NOT age_mask_in_place = value_of m AND NOT age_mask_in_place"
    unfolding r_def field_defs by (rule bit_word_eqI) (auto simp: bit_simps)
  have bl: "r AND biased_lock_mask_in_place = value_of m AND biased_lock_mask_in_place"
    unfolding r_def field_defs by (rule bit_word_eqI) (auto simp: bit_simps)
  have "r AND epoch_mask_in_place = value_of m AND epoch_mask_in_place \<and>
        r AND NOT (biased_lock_mask_in_place OR age_mask_in_place OR epoch_mask_in_place)
          = value_of m AND NOT (biased_lock_mask_in_place OR age_mask_in_place OR epoch_mask_in_place) \<and>
        drop_bit (hash_shift TYPE('a)) r AND hash_mask
          = drop_bit (hash_shift TYPE('a)) (value_of m) AND hash_mask"
  proof (cases rule: word_size_cases [OF width])
    case 1
    show ?thesis
      unfolding r_def layout_32 [OF 1] field_defs
      by (intro conjI; rule bit_word_eqI; use 1 in \<open>auto simp: bit_simps\<close>)
  next
    case 2
    show ?thesis
      unfolding r_def layout_64 [OF 2] field_defs
      by (intro conjI; rule bit_word_eqI; use 2 in \<open>auto simp: bit_simps\<close>)
  qed
  with res ag fr bl show ?thesis
    by (simp add: age_def hash_def mask_bits_def)
qed

text \<open>
  Claim C8.  On both builds, for every header word and every \<^verbatim>\<open>v\<close> with
  \<open>0 \<le> v \<le> 15\<close>, \<^verbatim>\<open>set_age\<close> returns (without asserting) a word whose \<^verbatim>\<open>age()\<close> is
  \<^verbatim>\<open>v\<close> and whose bits outside the age field are those of the original: the lock tag and
  the bias bit, the hash, and the bias overlay (pattern, thread and epoch) read as before.
\<close>

theorem set_age_frame:
  fixes m :: "'a::len word markWord"
  assumes "BitsPerWord TYPE('a) = 32 \<or> BitsPerWord TYPE('a) = 64"
    and "0 \<le> v" and "v \<le> max_age TYPE('a)"
  shows "\<exists>m'. set_age m v = Inr m' \<and> age m' = v \<and>
           value_of m' AND NOT age_mask_in_place = value_of m AND NOT age_mask_in_place \<and>
           mask_bits (value_of m') lock_mask_in_place = mask_bits (value_of m) lock_mask_in_place \<and>
           mask_bits (value_of m') biased_lock_bit_in_place
             = mask_bits (value_of m) biased_lock_bit_in_place \<and>
           hash m' = hash m \<and>
           has_bias_pattern m' = has_bias_pattern m \<and>
           biased_locker m' = biased_locker m \<and>
           bias_epoch m' = bias_epoch m"
proof -
  from set_age_in_range [OF assms(1,3), of m] obtain m' where
    res: "set_age m v = Inr m'" "age m' = v"
    and fr: "value_of m' AND NOT age_mask_in_place = value_of m AND NOT age_mask_in_place"
    and bl: "mask_bits (value_of m') biased_lock_mask_in_place
               = mask_bits (value_of m) biased_lock_mask_in_place"
    and ep: "mask_bits (value_of m') epoch_mask_in_place = mask_bits (value_of m) epoch_mask_in_place"
    and th: "mask_bits (value_of m')
               (NOT (biased_lock_mask_in_place OR age_mask_in_place OR epoch_mask_in_place))
             = mask_bits (value_of m)
                 (NOT (biased_lock_mask_in_place OR age_mask_in_place OR epoch_mask_in_place))"
    and hs: "hash m' = hash m"
    by blast
  have sub: "x AND mask 3 = y AND mask 3 \<Longrightarrow>
      x AND mask 2 = y AND mask 2 \<and> x AND push_bit 2 1 = y AND push_bit 2 1" for x y :: "'a word"
  proof -
    assume e: "x AND mask 3 = y AND mask 3"
    have "x AND mask 2 = (x AND mask 3) AND mask 2" "y AND mask 2 = (y AND mask 3) AND mask 2"
      "x AND push_bit 2 1 = (x AND mask 3) AND push_bit 2 1"
      "y AND push_bit 2 1 = (y AND mask 3) AND push_bit 2 1"
      by (rule bit_word_eqI; auto simp: bit_simps simp del: push_bit_of_1)+
    with e show ?thesis by simp
  qed
  from bl have tag: "mask_bits (value_of m') lock_mask_in_place = mask_bits (value_of m) lock_mask_in_place"
    and bit: "mask_bits (value_of m') biased_lock_bit_in_place
                = mask_bits (value_of m) biased_lock_bit_in_place"
    using sub [of "value_of m'" "value_of m"] by (simp_all add: field_defs del: push_bit_of_1)
  from bl have hb: "has_bias_pattern m' = has_bias_pattern m"
    by (simp add: has_bias_pattern_def)
  from hb th have lk: "biased_locker m' = biased_locker m"
    by (simp add: biased_locker_def)
  from hb ep have be: "bias_epoch m' = bias_epoch m"
    by (simp add: bias_epoch_def)
  from res fr tag bit hs hb lk be show ?thesis by blast
qed

theorem set_age_frame_witness:
  "(0 :: uint) \<le> 9 \<and> (9 :: uint) \<le> max_age TYPE(64) \<and>
   set_age (markWord (0x7F000000163D :: 64 word)) 9 = Inr (markWord 0x7F000000164D) \<and>
   age (markWord (0x7F000000164D :: 64 word)) = 9 \<and>
   biased_locker (markWord (0x7F000000164D :: 64 word)) = Inr 0x7F0000001400"
proof -
  have w: "BitsPerWord TYPE(64) = 32 \<or> BitsPerWord TYPE(64) = 64"
    by (simp add: BitsPerWord_def)
  have v0: "(0 :: uint) \<le> 9" by simp
  have v: "(9 :: uint) \<le> max_age TYPE(64)" by code_simp
  have r: "set_age (markWord (0x7F000000163D :: 64 word)) 9 = Inr (markWord 0x7F000000164D)"
    by code_simp
  have l: "biased_locker (markWord (0x7F000000163D :: 64 word)) = Inr 0x7F0000001400"
    by code_simp
  from set_age_frame [OF w v0 v, of "markWord 0x7F000000163D"] r l v0 v
  show ?thesis by auto
qed

text \<open>
  Claim C7.  On both builds \<^verbatim>\<open>incr_age\<close> returns a header whose age is 15 unchanged, and
  for a header whose age is below 15 it returns (without asserting) a header whose age is one
  greater.
\<close>

theorem incr_age_saturates:
  fixes m :: "'a::len word markWord"
  assumes "BitsPerWord TYPE('a) = 32 \<or> BitsPerWord TYPE('a) = 64"
  shows "(age m = 15 \<longrightarrow> incr_age m = Inr m) \<and>
         (age m < 15 \<longrightarrow> (\<exists>m'. incr_age m = Inr m' \<and> age m' = age m + 1))"
proof (intro conjI impI)
  note len = word_size_ge(3) [OF assms]
  note mx = max_age_15 [OF len]
  {
    assume "age m = 15"
    then show "incr_age m = Inr m" by (simp add: incr_age_def mx)
  next
    assume lt: "age m < 15"
    then have "age m + 1 \<le> max_age TYPE('a)" unfolding mx by (rule inc_le)
    from set_age_in_range [OF assms this, of m]
    obtain m' where "set_age m (age m + 1) = Inr m'" "age m' = age m + 1"
      by blast
    with lt show "\<exists>m'. incr_age m = Inr m' \<and> age m' = age m + 1"
      by (auto simp: incr_age_def mx)
  }
qed

theorem incr_age_saturates_witness:
  "age (markWord (0x79 :: 64 word)) = 15 \<and>
   incr_age (markWord (0x79 :: 64 word)) = Inr (markWord 0x79) \<and>
   age (markWord (0x29 :: 64 word)) < 15 \<and>
   (\<exists>m'. incr_age (markWord (0x29 :: 64 word)) = Inr m' \<and> age m' = 6)"
proof -
  have w: "BitsPerWord TYPE(64) = 32 \<or> BitsPerWord TYPE(64) = 64"
    by (simp add: BitsPerWord_def)
  have a: "age (markWord (0x79 :: 64 word)) = 15" by code_simp
  have b: "age (markWord (0x29 :: 64 word)) = 5" by code_simp
  from incr_age_saturates [OF w, of "markWord 0x79"] incr_age_saturates [OF w, of "markWord 0x29"] a b
  show ?thesis by simp
qed

section \<open>Identity hash\<close>

text \<open>
  Claim C9.  On both builds, for every unlocked, non-biased header word and every hash value,
  \<^verbatim>\<open>copy_set_hash\<close> returns a word whose hash bit-range holds the hash value masked to
  \<^verbatim>\<open>hash_bits\<close> bits and nothing else, whose lock tag, bias bit and age bits are those of
  the original, and whose \<^verbatim>\<open>hash()\<close> is the masked hash value.
\<close>

theorem copy_set_hash_frame:
  fixes m :: "'a::len word markWord"
  assumes "BitsPerWord TYPE('a) = 32 \<or> BitsPerWord TYPE('a) = 64"
    and "is_unlocked m" and "\<not> has_bias_pattern m"
  shows "mask_bits (value_of (copy_set_hash m h)) hash_mask_in_place
           = push_bit (hash_shift TYPE('a)) (mask_bits h hash_mask) \<and>
         mask_bits (value_of (copy_set_hash m h)) lock_mask_in_place
           = mask_bits (value_of m) lock_mask_in_place \<and>
         mask_bits (value_of (copy_set_hash m h)) biased_lock_bit_in_place
           = mask_bits (value_of m) biased_lock_bit_in_place \<and>
         mask_bits (value_of (copy_set_hash m h)) age_mask_in_place
           = mask_bits (value_of m) age_mask_in_place \<and>
         hash (copy_set_hash m h) = mask_bits h hash_mask"
proof (cases rule: word_size_cases [OF assms(1)])
  case 1
  show ?thesis
    unfolding copy_set_hash_def hash_def Let_def layout_32 [OF 1] field_defs markWord.sel
    by (intro conjI; rule bit_word_eqI; use 1 in \<open>auto simp: bit_simps simp del: push_bit_of_1\<close>)
next
  case 2
  show ?thesis
    unfolding copy_set_hash_def hash_def Let_def layout_64 [OF 2] field_defs markWord.sel
    by (intro conjI; rule bit_word_eqI; use 2 in \<open>auto simp: bit_simps simp del: push_bit_of_1\<close>)
qed

text \<open>
  A 64-bit header with age 5 and an old hash, and a new hash wider than 31 bits: the old hash is
  gone, the new one is cut to 31 bits.
\<close>

theorem copy_set_hash_frame_witness:
  "is_unlocked (markWord (0x7FFFFFFF29 :: 64 word)) \<and>
   \<not> has_bias_pattern (markWord (0x7FFFFFFF29 :: 64 word)) \<and>
   copy_set_hash (markWord (0x7FFFFFFF29 :: 64 word)) 0xF12345678 = markWord 0x1234567829 \<and>
   hash (copy_set_hash (markWord (0x7FFFFFFF29 :: 64 word)) 0xF12345678) = 0x12345678 \<and>
   mask_bits (0xF12345678 :: 64 word) hash_mask = 0x12345678"
proof -
  have w: "BitsPerWord TYPE(64) = 32 \<or> BitsPerWord TYPE(64) = 64"
    by (simp add: BitsPerWord_def)
  have u: "is_unlocked (markWord (0x7FFFFFFF29 :: 64 word))" by code_simp
  have b: "\<not> has_bias_pattern (markWord (0x7FFFFFFF29 :: 64 word))" by code_simp
  have c: "copy_set_hash (markWord (0x7FFFFFFF29 :: 64 word)) 0xF12345678 = markWord 0x1234567829"
    by code_simp
  have k: "mask_bits (0xF12345678 :: 64 word) hash_mask = 0x12345678" by code_simp
  from copy_set_hash_frame [OF w u b, of "0xF12345678"] u b c k
  show ?thesis by simp
qed

section \<open>Biased headers\<close>

text \<open>
  Claim C1.  An epoch value is a value of the two-bit epoch field, that is 0 to 3
  (\<^verbatim>\<open>max_bias_epoch\<close>).  On both builds, for every thread pointer whose bits under the
  bias, age and epoch masks are zero, every age at most 15 and every epoch value at most 3, the
  header produced by \<^verbatim>\<open>encode(thread, age, epoch)\<close> satisfies \<^verbatim>\<open>has_bias_pattern\<close>, and
  \<^verbatim>\<open>biased_locker()\<close>, \<^verbatim>\<open>age()\<close> and \<^verbatim>\<open>bias_epoch()\<close> return from it the thread
  pointer, the age and the epoch.  This holds for both settings of \<^verbatim>\<open>UseBiasedLocking\<close>;
  with the flag on no assertion fails and a header is produced.
\<close>

theorem encode_thread_roundtrip:
  fixes thread :: "'a::len word"
  assumes width: "BitsPerWord TYPE('a) = 32 \<or> BitsPerWord TYPE('a) = 64"
    and aligned:
      "thread AND (epoch_mask_in_place OR age_mask_in_place OR biased_lock_mask_in_place) = 0"
    and age_ok: "age_v \<le> max_age TYPE('a)"
    and epoch_ok: "epoch_v \<le> max_bias_epoch TYPE('a)"
  shows "(UseBiasedLocking \<longrightarrow> (\<exists>m. encode UseBiasedLocking thread age_v epoch_v = Inr m)) \<and>
         (\<forall>m. encode UseBiasedLocking thread age_v epoch_v = Inr m \<longrightarrow>
            has_bias_pattern m \<and> biased_locker m = Inr thread \<and>
            age m = age_v \<and> bias_epoch m = Inr epoch_v)"
proof -
  note len = word_size_ge(3) [OF width]
  define r where "r = thread OR scast (push_bit (epoch_shift TYPE('a)) epoch_v)
                        OR ucast (push_bit age_shift age_v) OR biased_lock_pattern"
  have em: "epoch_v AND mask 2 = epoch_v"
    using epoch_ok by (simp add: max_bias_epoch_3 [OF len] uint_le_3)
  then have sle: "epoch_v \<le>s max_bias_epoch TYPE('a)"
    using cint_range_3 [of epoch_v] by (simp add: max_bias_epoch_3 [OF len])
  have enc: "encode UseBiasedLocking thread age_v epoch_v =
      (if UseBiasedLocking then Inr (markWord r)
       else Inl (assert_failed ''misaligned JavaThread pointer''))"
    unfolding encode_def Let_def r_def using aligned age_ok sle by simp
  define M :: "'a word"
    where "M = epoch_mask_in_place OR age_mask_in_place OR biased_lock_mask_in_place"
  define t' a' e' where "t' = thread" and "a' = age_v" and "e' = epoch_v"
  have t: "thread = t' AND NOT M"
    unfolding t'_def M_def using and_zero_imp [OF aligned] by simp
  have a: "age_v = a' AND mask 4"
    unfolding a'_def using age_ok by (simp add: max_age_15 [OF len] uint_le_15)
  have e: "epoch_v = e' AND mask 2"
    unfolding e'_def using em by simp
  have "r AND biased_lock_mask_in_place = biased_lock_pattern \<and>
        r AND NOT (biased_lock_mask_in_place OR age_mask_in_place OR epoch_mask_in_place) = thread \<and>
        ucast (drop_bit age_shift r AND age_mask) = age_v \<and>
        ucast (drop_bit (epoch_shift TYPE('a)) (r AND epoch_mask_in_place)) = epoch_v"
  proof (cases rule: word_size_cases [OF width])
    case 1
    show ?thesis
      unfolding r_def t a e M_def layout_32 [OF 1] field_defs biased_lock_pattern_def
      by (intro conjI; rule bit_word_eqI; use 1 in \<open>auto simp: bit_simps tag_bits\<close>)
  next
    case 2
    show ?thesis
      unfolding r_def t a e M_def layout_64 [OF 2] field_defs biased_lock_pattern_def
      by (intro conjI; rule bit_word_eqI; use 2 in \<open>auto simp: bit_simps tag_bits\<close>)
  qed
  then have "has_bias_pattern (markWord r) \<and> biased_locker (markWord r) = Inr thread \<and>
      age (markWord r) = age_v \<and> bias_epoch (markWord r) = Inr epoch_v"
    by (simp add: has_bias_pattern_def biased_locker_def age_def bias_epoch_def mask_bits_def)
  then show ?thesis
    unfolding enc by auto
qed

text \<open>
  A 64-bit thread pointer aligned to 1024 bytes, age 7 and epoch 2, with
  \<^verbatim>\<open>UseBiasedLocking\<close> on.
\<close>

theorem encode_thread_roundtrip_witness:
  "(0x7F0000001400 :: 64 word)
     AND (epoch_mask_in_place OR age_mask_in_place OR biased_lock_mask_in_place) = 0 \<and>
   (7 :: uint) \<le> max_age TYPE(64) \<and> (2 :: cint) \<le> max_bias_epoch TYPE(64) \<and>
   encode True (0x7F0000001400 :: 64 word) 7 2 = Inr (markWord 0x7F000000163D) \<and>
   has_bias_pattern (markWord (0x7F000000163D :: 64 word)) \<and>
   biased_locker (markWord (0x7F000000163D :: 64 word)) = Inr 0x7F0000001400 \<and>
   age (markWord (0x7F000000163D :: 64 word)) = 7 \<and>
   bias_epoch (markWord (0x7F000000163D :: 64 word)) = Inr 2"
proof -
  have w: "BitsPerWord TYPE(64) = 32 \<or> BitsPerWord TYPE(64) = 64"
    by (simp add: BitsPerWord_def)
  have al: "(0x7F0000001400 :: 64 word)
     AND (epoch_mask_in_place OR age_mask_in_place OR biased_lock_mask_in_place) = 0"
    by code_simp
  have ag: "(7 :: uint) \<le> max_age TYPE(64)" by code_simp
  have ep: "(2 :: cint) \<le> max_bias_epoch TYPE(64)" by code_simp
  have en: "encode True (0x7F0000001400 :: 64 word) 7 2 = Inr (markWord 0x7F000000163D)"
    by code_simp
  from encode_thread_roundtrip [OF w al ag ep, of True] al ag ep en
  show ?thesis by auto
qed

text \<open>
  Claim C2, amended.  For every header word in which the bias pattern is set and the thread
  field is zero, \<^verbatim>\<open>is_biased_anonymously\<close> returns true, and \<^verbatim>\<open>biased_locker()\<close> on such
  a word does not assert: its one assertion is \<^verbatim>\<open>has_bias_pattern()\<close>, which holds, and it
  returns the null pointer.  This holds at every word width.
\<close>

theorem anonymous_bias_null_locker:
  fixes m :: "'a::len word markWord"
  assumes "has_bias_pattern m"
    and "mask_bits (value_of m)
           (NOT (biased_lock_mask_in_place OR age_mask_in_place OR epoch_mask_in_place)) = 0"
  shows "is_biased_anonymously m = Inr True \<and> biased_locker m = Inr NULL"
  using assms by (simp add: is_biased_anonymously_def biased_locker_def NULL_def)

text \<open>A 64-bit anonymously biased header with age 11 and epoch 3.\<close>

theorem anonymous_bias_null_locker_witness:
  "has_bias_pattern (markWord (0x35D :: 64 word)) \<and>
   mask_bits (value_of (markWord (0x35D :: 64 word)))
     (NOT (biased_lock_mask_in_place OR age_mask_in_place OR epoch_mask_in_place)) = 0 \<and>
   is_biased_anonymously (markWord (0x35D :: 64 word)) = Inr True \<and>
   biased_locker (markWord (0x35D :: 64 word)) = Inr NULL"
proof -
  have p: "has_bias_pattern (markWord (0x35D :: 64 word))" by code_simp
  have z: "mask_bits (value_of (markWord (0x35D :: 64 word)))
     (NOT (biased_lock_mask_in_place OR age_mask_in_place OR epoch_mask_in_place)) = 0"
    by code_simp
  from anonymous_bias_null_locker [OF p z] p z show ?thesis by simp
qed

text \<open>
  Claim C2 as stated fails on the 64-bit biased-locking prototype: the bias pattern is set and
  the thread field is zero, and \<^verbatim>\<open>biased_locker()\<close> returns the null pointer instead of
  failing an assertion.
\<close>

theorem biased_locker_anonymous_counterexample:
  "has_bias_pattern (biased_locking_prototype :: 64 word markWord) \<and>
   mask_bits (value_of (biased_locking_prototype :: 64 word markWord))
     (NOT (biased_lock_mask_in_place OR age_mask_in_place OR epoch_mask_in_place)) = 0 \<and>
   is_biased_anonymously (biased_locking_prototype :: 64 word markWord) = Inr True \<and>
   biased_locker (biased_locking_prototype :: 64 word markWord) = Inr 0 \<and>
   \<not> isl (biased_locker (biased_locking_prototype :: 64 word markWord))"
  by code_simp

section \<open>Moving a lock record\<close>

text \<open>
  Claim C4.  \<^verbatim>\<open>move_to(obj, dest)\<close> calls \<^verbatim>\<open>inflate_helper\<close> (once, on \<^verbatim>\<open>obj\<close>) if the
  displaced header of the record is neutral and not at all otherwise.  In both cases its last
  step stores the displaced header of the source record, as it then is, into the destination
  record, so that afterwards the two records hold equal displaced headers.  A displaced header
  that is zero or denotes a monitor is not neutral: it is copied as it is, and nothing else in
  the state changes.  This holds at every word width and for every \<^verbatim>\<open>inflate_helper\<close>.
\<close>

theorem move_to_inflates_iff_neutral:
  fixes s :: "'a::len word machine"
  shows "inflate_calls (move_to inflate_helper this obj dest s) =
           (if is_neutral (displaced_header_at this s)
            then inflate_calls s @ [obj] else inflate_calls s) \<and>
         displaced_header_at dest (move_to inflate_helper this obj dest s) =
           displaced_header_at this
             (if is_neutral (displaced_header_at this s)
              then call_inflate_helper inflate_helper obj s else s) \<and>
         displaced_header_at dest (move_to inflate_helper this obj dest s) =
           displaced_header_at this (move_to inflate_helper this obj dest s) \<and>
         (displaced_header_at this s = zero \<or> has_monitor (displaced_header_at this s) \<longrightarrow>
            \<not> is_neutral (displaced_header_at this s) \<and>
            move_to inflate_helper this obj dest s =
              set_displaced_header_at dest (displaced_header_at this s) s)"
proof -
  have nn: "displaced_header_at this s = zero \<or> has_monitor (displaced_header_at this s) \<Longrightarrow>
      \<not> is_neutral (displaced_header_at this s)"
  proof (erule disjE)
    assume "displaced_header_at this s = zero"
    then show ?thesis
      by (simp add: zero_def is_neutral_def field_defs tag_defs)
  next
    assume "has_monitor (displaced_header_at this s)"
    then show ?thesis by (rule has_monitor_not_neutral)
  qed
  have calls: "inflate_calls (move_to inflate_helper this obj dest s) =
           (if is_neutral (displaced_header_at this s)
            then inflate_calls s @ [obj] else inflate_calls s)"
    by (simp add: move_to_def Let_def set_displaced_header_at_def call_inflate_helper_def)
  have stored: "displaced_header_at dest (move_to inflate_helper this obj dest s) =
           displaced_header_at this
             (if is_neutral (displaced_header_at this s)
              then call_inflate_helper inflate_helper obj s else s)"
    by (simp add: move_to_def Let_def set_displaced_header_at_def
        displaced_header_at_def displaced_header_def set_displaced_header_def)
  have equal: "displaced_header_at dest (move_to inflate_helper this obj dest s) =
           displaced_header_at this (move_to inflate_helper this obj dest s)"
    by (simp add: move_to_def Let_def set_displaced_header_at_def
        displaced_header_at_def displaced_header_def set_displaced_header_def)
  have direct: "\<not> is_neutral (displaced_header_at this s) \<Longrightarrow>
      move_to inflate_helper this obj dest s =
        set_displaced_header_at dest (displaced_header_at this s) s"
    by (simp add: move_to_def Let_def)
  from nn calls stored equal direct show ?thesis by blast
qed

text \<open>
  A 64-bit state with a lock record at \<open>0x1000\<close> holding the neutral header 1 for the
  object \<open>0x3000\<close>, every other record holding the recursive marker zero, and an
  \<^verbatim>\<open>inflate_helper\<close> that installs a monitor header in the object.  Moving the record
  at \<open>0x1000\<close> inflates; moving the record at \<open>0x1800\<close> does not.
\<close>

theorem move_to_inflates_iff_neutral_witness:
  "let inflate_helper = (\<lambda>obj m. m\<lparr>mark_words := (mark_words m)(obj := encode_monitor 0x7F0000002000)\<rparr>);
       s = \<lparr>mem = \<lparr>basic_locks = (\<lambda>p. \<lparr>displaced_header_field = zero\<rparr>)
                                      (0x1000 := \<lparr>displaced_header_field = markWord 1\<rparr>),
                    mark_words = (\<lambda>obj. markWord 1)(0x3000 := markWord 0x1000)\<rparr>,
            inflate_calls = []\<rparr> :: 64 word machine
   in is_neutral (displaced_header_at 0x1000 s) \<and>
      inflate_calls (move_to inflate_helper 0x1000 0x3000 0x2000 s) = [0x3000] \<and>
      displaced_header_at 0x2000 (move_to inflate_helper 0x1000 0x3000 0x2000 s) = markWord 1 \<and>
      displaced_header_at 0x1000 (move_to inflate_helper 0x1000 0x3000 0x2000 s) = markWord 1 \<and>
      mark_words (mem (move_to inflate_helper 0x1000 0x3000 0x2000 s)) 0x3000
        = markWord 0x7F0000002002 \<and>
      displaced_header_at 0x1800 s = zero \<and>
      inflate_calls (move_to inflate_helper 0x1800 0x3000 0x2000 s) = [] \<and>
      move_to inflate_helper 0x1800 0x3000 0x2000 s = set_displaced_header_at 0x2000 zero s"
proof -
  define inflate_helper :: "64 word \<Rightarrow> 64 word memory \<Rightarrow> 64 word memory"
    where "inflate_helper = (\<lambda>obj m. m\<lparr>mark_words := (mark_words m)(obj := encode_monitor 0x7F0000002000)\<rparr>)"
  define s :: "64 word machine"
    where "s = \<lparr>mem = \<lparr>basic_locks = (\<lambda>p. \<lparr>displaced_header_field = zero\<rparr>)
                                      (0x1000 := \<lparr>displaced_header_field = markWord 1\<rparr>),
                    mark_words = (\<lambda>obj. markWord 1)(0x3000 := markWord 0x1000)\<rparr>,
            inflate_calls = []\<rparr>"
  have h1: "displaced_header_at 0x1000 s = markWord 1"
    by (simp add: s_def displaced_header_at_def displaced_header_def)
  have h2: "displaced_header_at 0x1800 s = zero"
    by (simp add: s_def displaced_header_at_def displaced_header_def)
  have n: "is_neutral (markWord 1 :: 64 word markWord)" by code_simp
  have c: "inflate_calls s = []" by (simp add: s_def)
  have after: "displaced_header_at 0x1000 (call_inflate_helper inflate_helper 0x3000 s) = markWord 1"
    by (simp add: s_def inflate_helper_def call_inflate_helper_def displaced_header_at_def
        displaced_header_def)
  have mv: "move_to inflate_helper 0x1000 0x3000 0x2000 s =
      set_displaced_header_at 0x2000 (markWord 1) (call_inflate_helper inflate_helper 0x3000 s)"
    using n by (simp add: move_to_def Let_def h1 after)
  have em: "encode_monitor (0x7F0000002000 :: 64 word) = markWord 0x7F0000002002"
    by code_simp
  have mw: "mark_words (mem (move_to inflate_helper 0x1000 0x3000 0x2000 s)) 0x3000
        = markWord 0x7F0000002002"
    unfolding mv
    by (simp add: set_displaced_header_at_def call_inflate_helper_def inflate_helper_def em)
  from move_to_inflates_iff_neutral [of inflate_helper "0x1000" "0x3000" "0x2000" s] h1 n c after
  have a: "inflate_calls (move_to inflate_helper 0x1000 0x3000 0x2000 s) = [0x3000] \<and>
      displaced_header_at 0x2000 (move_to inflate_helper 0x1000 0x3000 0x2000 s) = markWord 1 \<and>
      displaced_header_at 0x1000 (move_to inflate_helper 0x1000 0x3000 0x2000 s) = markWord 1"
    by auto
  from move_to_inflates_iff_neutral [of inflate_helper "0x1800" "0x3000" "0x2000" s] h2 c
  have b: "inflate_calls (move_to inflate_helper 0x1800 0x3000 0x2000 s) = [] \<and>
      move_to inflate_helper 0x1800 0x3000 0x2000 s = set_displaced_header_at 0x2000 zero s"
    by auto
  from h1 n have n': "is_neutral (displaced_header_at 0x1000 s)"
    by simp
  from a b h2 n' mw
  have "is_neutral (displaced_header_at 0x1000 s) \<and>
      inflate_calls (move_to inflate_helper 0x1000 0x3000 0x2000 s) = [0x3000] \<and>
      displaced_header_at 0x2000 (move_to inflate_helper 0x1000 0x3000 0x2000 s) = markWord 1 \<and>
      displaced_header_at 0x1000 (move_to inflate_helper 0x1000 0x3000 0x2000 s) = markWord 1 \<and>
      mark_words (mem (move_to inflate_helper 0x1000 0x3000 0x2000 s)) 0x3000
        = markWord 0x7F0000002002 \<and>
      displaced_header_at 0x1800 s = zero \<and>
      inflate_calls (move_to inflate_helper 0x1800 0x3000 0x2000 s) = [] \<and>
      move_to inflate_helper 0x1800 0x3000 0x2000 s = set_displaced_header_at 0x2000 zero s"
    by blast
  then show ?thesis
    unfolding Let_def inflate_helper_def s_def .
qed

end
